theory Spec2Isabelle
  imports
    Complex_Main
    "HOL-Library.Word"
    "HOL-Library.List_Lexorder"
    "HOL-Library.Product_Lexorder"
begin

section \<open>Values of the program\<close>

text \<open>
  The program is \<^verbatim>\<open>project_snapshot_cli.py\<close>. A Python \<^verbatim>\<open>bytes\<close> object is a list of
  bytes. A Python \<^verbatim>\<open>str\<close> is a list of Unicode code points, so that the replacement
  character U+FFFD of a lossy decode has a value; the order of \<open>HOL-Library.List_Lexorder\<close>
  on such lists is Python's comparison of strings (code point by code point, a proper
  prefix first). A string literal of the source is written \<open>S ''...''\<close>.
\<close>

type_synonym byte = "8 word"
type_synonym bytes = "byte list"
type_synonym ustr = "nat list"

definition S :: "string \<Rightarrow> ustr" where
  "S cs = map of_char cs"

text \<open>\<^verbatim>\<open>sep.join(parts)\<close>.\<close>

fun join :: "ustr \<Rightarrow> ustr list \<Rightarrow> ustr" where
  "join sep [] = []"
| "join sep [x] = x"
| "join sep (x # y # ys) = x @ sep @ join sep (y # ys)"

text \<open>
  \<^verbatim>\<open>str.lower()\<close>, exact on ASCII text: the letters A to Z go to a to z. Code points
  beyond ASCII are left as they are here (Python lowers them by the Unicode tables); every
  theorem below that quantifies over names holds for any such function, since none of them
  unfolds this definition on a variable.
\<close>

definition lower_cp :: "nat \<Rightarrow> nat" where
  "lower_cp c = (if 65 \<le> c \<and> c \<le> 90 then c + 32 else c)"

definition lower :: "ustr \<Rightarrow> ustr" where
  "lower s = map lower_cp s"

text \<open>\<^verbatim>\<open>s.startswith(".")\<close>.\<close>

fun startswith_dot :: "ustr \<Rightarrow> bool" where
  "startswith_dot [] = False"
| "startswith_dot (c # cs) = (c = 46)"

text \<open>
  \<^verbatim>\<open>str.splitlines()\<close>: the text is cut at every line boundary, the boundaries are
  dropped, \<^verbatim>\<open>\r\n\<close> is one boundary, and a boundary at the very end opens no further
  line. The boundaries are LF, VT, FF, CR, FS, GS, RS, NEL (U+0085), LS (U+2028) and
  PS (U+2029).
\<close>

definition is_linebreak :: "nat \<Rightarrow> bool" where
  "is_linebreak c = (c \<in> {10, 11, 12, 13, 28, 29, 30, 133, 8232, 8233})"

fun splitlines_from :: "ustr \<Rightarrow> ustr \<Rightarrow> ustr list" where
  "splitlines_from cur [] = (if cur = [] then [] else [cur])"
| "splitlines_from cur (c # cs) =
     (if c = 13 then
        (case cs of
           [] \<Rightarrow> [cur]
         | d # ds \<Rightarrow> if d = 10 then cur # splitlines_from [] ds else cur # splitlines_from [] cs)
      else if is_linebreak c then cur # splitlines_from [] cs
      else splitlines_from (cur @ [c]) cs)"

definition splitlines :: "ustr \<Rightarrow> ustr list" where
  "splitlines s = splitlines_from [] s"

text \<open>\<^verbatim>\<open>text.strip("\n")\<close>: line feeds are removed from both ends.\<close>

definition strip_nl :: "ustr \<Rightarrow> ustr" where
  "strip_nl s = rev (dropWhile (\<lambda>c. c = 10) (rev (dropWhile (\<lambda>c. c = 10) s)))"

text \<open>
  \<^verbatim>\<open>line.strip()\<close>: white space is removed from both ends. Python's white space is the
  set of code points below.
\<close>

definition is_space :: "nat \<Rightarrow> bool" where
  "is_space c =
     ((9 \<le> c \<and> c \<le> 13) \<or> (28 \<le> c \<and> c \<le> 32) \<or> c = 133 \<or> c = 160 \<or> c = 5760 \<or>
      (8192 \<le> c \<and> c \<le> 8202) \<or> c = 8232 \<or> c = 8233 \<or> c = 8239 \<or> c = 8287 \<or> c = 12288)"

definition strip_ws :: "ustr \<Rightarrow> ustr" where
  "strip_ws s = rev (dropWhile is_space (rev (dropWhile is_space s)))"

text \<open>The decimal digits of a counter, as an f-string prints an \<^verbatim>\<open>int\<close> that is not negative.\<close>

fun str_of_nat :: "nat \<Rightarrow> ustr" where
  "str_of_nat n = (if n < 10 then [48 + n] else str_of_nat (n div 10) @ [48 + n mod 10])"

declare str_of_nat.simps [simp del]

section \<open>Decoding UTF-8 without raising\<close>

text \<open>
  \<^verbatim>\<open>data.decode("utf-8", errors="replace")\<close> and \<^verbatim>\<open>errors="ignore"\<close>. The decoder never
  raises: each ill-formed piece of the input yields the list \<open>repl\<close> (U+FFFD for
  \<^verbatim>\<open>replace\<close>, nothing for \<^verbatim>\<open>ignore\<close>) and decoding goes on behind it. The pieces are
  CPython's: a byte that cannot start a sequence is one piece; a lead byte whose next
  byte cannot follow it is one piece (the next byte is decoded again); a sequence cut
  short by the end of the input is one piece; a sequence whose third or fourth byte is
  not a continuation byte is one piece up to that byte.
\<close>

definition is_cont :: "byte \<Rightarrow> bool" where
  "is_cont c = (0x80 \<le> c \<and> c \<le> 0xBF)"

definition bad_second3 :: "byte \<Rightarrow> byte \<Rightarrow> bool" where
  "bad_second3 b c = (\<not> is_cont c \<or> (if c < 0xA0 then b = 0xE0 else b = 0xED))"

definition bad_second4 :: "byte \<Rightarrow> byte \<Rightarrow> bool" where
  "bad_second4 b c = (\<not> is_cont c \<or> (if c < 0x90 then b = 0xF0 else b = 0xF4))"

definition cp2 :: "byte \<Rightarrow> byte \<Rightarrow> nat" where
  "cp2 b c = (unat b - 0xC0) * 64 + (unat c - 0x80)"

definition cp3 :: "byte \<Rightarrow> byte \<Rightarrow> byte \<Rightarrow> nat" where
  "cp3 b c d = (unat b - 0xE0) * 4096 + (unat c - 0x80) * 64 + (unat d - 0x80)"

definition cp4 :: "byte \<Rightarrow> byte \<Rightarrow> byte \<Rightarrow> byte \<Rightarrow> nat" where
  "cp4 b c d e =
     (unat b - 0xF0) * 262144 + (unat c - 0x80) * 4096 + (unat d - 0x80) * 64 + (unat e - 0x80)"

fun utf8_decode :: "ustr \<Rightarrow> bytes \<Rightarrow> ustr" where
  "utf8_decode repl [] = []"
| "utf8_decode repl (b # bs) =
     (if b < 0x80 then unat b # utf8_decode repl bs
      else if b < 0xC2 then repl @ utf8_decode repl bs
      else if b < 0xE0 then
        (case bs of
           [] \<Rightarrow> repl
         | c # cs \<Rightarrow>
             if is_cont c then cp2 b c # utf8_decode repl cs else repl @ utf8_decode repl bs)
      else if b < 0xF0 then
        (case bs of
           [] \<Rightarrow> repl
         | c # cs \<Rightarrow>
             if bad_second3 b c then repl @ utf8_decode repl bs
             else
               (case cs of
                  [] \<Rightarrow> repl
                | d # ds \<Rightarrow>
                    if is_cont d then cp3 b c d # utf8_decode repl ds
                    else repl @ utf8_decode repl cs))
      else if b < 0xF5 then
        (case bs of
           [] \<Rightarrow> repl
         | c # cs \<Rightarrow>
             if bad_second4 b c then repl @ utf8_decode repl bs
             else
               (case cs of
                  [] \<Rightarrow> repl
                | d # ds \<Rightarrow>
                    if \<not> is_cont d then repl @ utf8_decode repl cs
                    else
                      (case ds of
                         [] \<Rightarrow> repl
                       | e # es \<Rightarrow>
                           if is_cont e then cp4 b c d e # utf8_decode repl es
                           else repl @ utf8_decode repl ds)))
      else repl @ utf8_decode repl bs)"

definition decode_replace :: "bytes \<Rightarrow> ustr" where
  "decode_replace data = utf8_decode [0xFFFD] data"

definition decode_ignore :: "bytes \<Rightarrow> ustr" where
  "decode_ignore data = utf8_decode [] data"

section \<open>The binary sniffer\<close>

text \<open>
  \<^verbatim>\<open>sum(ch > 0x7F for ch in sample) / len(sample)\<close> divides two \<^verbatim>\<open>int\<close>s: the result is
  the binary64 number nearest to the exact quotient \<open>k / n\<close>, ties going to the even
  significand. For \<open>0 < k \<le> n\<close> the quotient lies in \<open>[2^-j, 2^(1-j))\<close> for the least \<open>j\<close>
  with \<open>n \<le> k * 2^j\<close> (or is 1), where binary64 numbers are the multiples of
  \<open>2^-(52+j)\<close> (of \<open>2^-1074\<close> among the subnormal numbers). The literal \<^verbatim>\<open>0.30\<close> is the
  binary64 number nearest to 3/10.
\<close>

definition round_half_even :: "nat \<Rightarrow> nat \<Rightarrow> nat" where
  "round_half_even a b =
     (let q = a div b; r = a mod b
      in if 2 * r < b then q else if b < 2 * r then q + 1 else if even q then q else q + 1)"

function binade :: "nat \<Rightarrow> nat \<Rightarrow> nat \<Rightarrow> nat" where
  "binade k n j = (if k = 0 \<or> n \<le> k * 2 ^ j then j else binade k n (Suc j))"
  by pat_completeness auto
termination
proof (relation "measure (\<lambda>(k, n, j). n - k * 2 ^ j)")
  show "wf (measure (\<lambda>(k, n, j). n - k * 2 ^ j))" by simp
next
  fix k n j :: nat
  assume a: "\<not> (k = 0 \<or> n \<le> k * 2 ^ j)"
  then have "k * 2 ^ j < k * 2 ^ Suc j" and "k * 2 ^ j < n" by simp_all
  then have "n - k * 2 ^ Suc j < n - k * 2 ^ j" by (rule diff_less_mono2)
  then show "((k, n, Suc j), (k, n, j)) \<in> measure (\<lambda>(k, n, j). n - k * 2 ^ j)"
    by simp
qed

declare binade.simps [simp del]

definition truediv :: "nat \<Rightarrow> nat \<Rightarrow> rat" where
  "truediv k n =
     (let u = min (52 + binade k n 0) 1074
      in of_nat (round_half_even (k * 2 ^ u) n) / 2 ^ u)"

definition double_0_30 :: rat where
  "double_0_30 = 5404319552844595 / 2 ^ 54"

definition count_high :: "bytes \<Rightarrow> nat" where
  "count_high sample = length (filter (\<lambda>ch. 0x7F < ch) sample)"

definition looks_binary :: "bytes \<Rightarrow> bool" where
  "looks_binary sample =
     (if sample = [] then False
      else if 0 \<in> set sample then True
      else double_0_30 < truediv (count_high sample) (length sample))"

section \<open>Files and the reader\<close>

text \<open>
  What the reader can observe of a file: the size \<^verbatim>\<open>path.stat().st_size\<close> and the bytes
  that \<^verbatim>\<open>open("rb")\<close> and \<^verbatim>\<open>read\<close> deliver, each of which may raise instead.
  \<^verbatim>\<open>f.read(n)\<close> returns at most \<open>n\<close> bytes, the whole file for \<open>n = -1\<close>, and raises
  \<^verbatim>\<open>ValueError\<close> for any other negative \<open>n\<close>.
\<close>

datatype py_error = OSError | ValueError

record pyfile =
  f_stat :: "py_error + nat"
  f_data :: "py_error + bytes"

definition file_read :: "pyfile \<Rightarrow> int option \<Rightarrow> py_error + bytes" where
  "file_read f count =
     (case f_data f of
        Inl e \<Rightarrow> Inl e
      | Inr data \<Rightarrow>
          (case count of
             None \<Rightarrow> Inr data
           | Some n \<Rightarrow>
               if 0 \<le> n then Inr (take (nat n) data)
               else if n = - 1 then Inr data
               else Inl ValueError))"

text \<open>
  The body of the \<^verbatim>\<open>try\<close> block of \<^verbatim>\<open>read_text_safely\<close>: the triple
  \<open>(text, truncated, binary_skipped)\<close>, or the exception that leaves the block. The size is
  asked for only when \<open>max_bytes\<close> is not zero.
\<close>

definition read_text_try :: "pyfile \<Rightarrow> int \<Rightarrow> py_error + (ustr \<times> bool \<times> bool)" where
  "read_text_try f max_bytes =
     (case (if max_bytes \<noteq> 0
            then (case f_stat f of Inl e \<Rightarrow> Inl e | Inr sz \<Rightarrow> Inr (max_bytes < int sz))
            else Inr False) of
        Inl e \<Rightarrow> Inl e
      | Inr True \<Rightarrow>
          (case file_read f (Some (max_bytes + 1)) of
             Inl e \<Rightarrow> Inl e
           | Inr data \<Rightarrow>
               if looks_binary data then Inr ([], False, True)
               else Inr (decode_replace data, True, False))
      | Inr False \<Rightarrow>
          (case file_read f None of
             Inl e \<Rightarrow> Inl e
           | Inr data \<Rightarrow>
               if looks_binary data then Inr ([], False, True)
               else Inr (decode_replace data, False, False)))"

definition read_text_safely :: "pyfile \<Rightarrow> int \<Rightarrow> ustr \<times> bool \<times> bool" where
  "read_text_safely f max_bytes =
     (case read_text_try f max_bytes of
        Inl e \<Rightarrow> ([], False, True)
      | Inr r \<Rightarrow> r)"

section \<open>The file system and the options\<close>

text \<open>
  A directory lists its entries in the order in which the file system hands them out
  (\<^verbatim>\<open>iterdir\<close>, \<^verbatim>\<open>os.walk\<close>); every directory can be listed and there are no symbolic
  links. A path below the root is the list of its components; the root is the list of the
  components of its resolved absolute path.
\<close>

datatype node = File pyfile | Dir "(ustr \<times> node) list"

type_synonym path = "ustr list"

fun is_dir :: "node \<Rightarrow> bool" where
  "is_dir (Dir entries) = True"
| "is_dir (File f) = False"

fun lookup :: "(ustr \<times> node) list \<Rightarrow> path \<Rightarrow> node option" where
  "lookup entries [] = None"
| "lookup entries [n] = map_of entries n"
| "lookup entries (n # m # ms) =
     (case map_of entries n of
        Some (Dir sub) \<Rightarrow> lookup sub (m # ms)
      | Some (File f) \<Rightarrow> None
      | None \<Rightarrow> None)"

text \<open>\<^verbatim>\<open>p.name\<close>, \<^verbatim>\<open>p.suffix\<close>, \<^verbatim>\<open>str(p.relative_to(root))\<close> and \<^verbatim>\<open>str(p)\<close>.\<close>

definition path_name :: "path \<Rightarrow> ustr" where
  "path_name p = (if p = [] then [] else last p)"

definition rfind_dot :: "ustr \<Rightarrow> int" where
  "rfind_dot name =
     (if 46 \<in> set name
      then int (length name) - 1 - int (length (takeWhile (\<lambda>c. c \<noteq> 46) (rev name)))
      else - 1)"

definition path_suffix :: "ustr \<Rightarrow> ustr" where
  "path_suffix name =
     (let i = rfind_dot name
      in if 0 < i \<and> i < int (length name) - 1 then drop (nat i) name else [])"

definition rel_str :: "path \<Rightarrow> ustr" where
  "rel_str p = join (S ''/'') p"

definition full_str :: "path \<Rightarrow> path \<Rightarrow> ustr" where
  "full_str r p = S ''/'' @ join (S ''/'') (r @ p)"

record options =
  opt_root :: path
  opt_include_exts :: "ustr list"
  opt_exclude_dirs :: "ustr list"
  opt_exclude_files :: "ustr list"
  opt_include_globs :: "ustr list"
  opt_exclude_globs :: "ustr list"
  opt_respect_gitignore :: bool
  opt_max_bytes :: int
  opt_head_lines :: int
  opt_tail_lines :: int
  opt_show_stats :: bool

definition DEFAULT_INCLUDE_EXTS :: "ustr list" where
  "DEFAULT_INCLUDE_EXTS =
     [S ''.py'', S ''.json'', S ''.test'', S ''.sh'', S ''.toml'', S ''.yml'', S ''.yaml'',
      S ''.cfg'', S ''.ini'', S ''.html'', []]"

definition DEFAULT_EXCLUDE_DIRS :: "ustr list" where
  "DEFAULT_EXCLUDE_DIRS =
     [S ''__pycache__'', S ''.git'', S ''.venv'', S ''venv'', S ''.idea'', S ''.mypy_cache'',
      S ''data'', S ''bu'', S ''bootstrap'', S ''out'', S ''config'', S ''.ipynb_checkpoints'',
      S ''assets'', S ''.pytest_cache'']"

definition DEFAULT_EXCLUDE_FILES :: "ustr list" where
  "DEFAULT_EXCLUDE_FILES = [S ''scratch.json'', S ''scratch.py'']"

text \<open>The options \<^verbatim>\<open>main\<close> fills in when neither the command line nor a config file sets them.\<close>

definition default_options :: "path \<Rightarrow> options" where
  "default_options r =
     \<lparr>opt_root = r,
      opt_include_exts = DEFAULT_INCLUDE_EXTS,
      opt_exclude_dirs = DEFAULT_EXCLUDE_DIRS,
      opt_exclude_files = DEFAULT_EXCLUDE_FILES,
      opt_include_globs = [],
      opt_exclude_globs = [],
      opt_respect_gitignore = False,
      opt_max_bytes = 0,
      opt_head_lines = 200,
      opt_tail_lines = 80,
      opt_show_stats = True\<rparr>"

text \<open>
  Two things a run takes from outside the program: the standard library's
  \<^verbatim>\<open>fnmatch.fnmatch(name, pattern)\<close>, and the order in which Python iterates over
  \<^verbatim>\<open>set(files)\<close>, which follows the hashes of the paths (string hashes are seeded anew
  for every process) and not the order of insertion. Whatever that order is, it lists
  every element of the set once.
\<close>

record env =
  fnmatch :: "ustr \<Rightarrow> ustr \<Rightarrow> bool"
  set_iter :: "path list \<Rightarrow> path list"

definition set_iter_ok :: "(path list \<Rightarrow> path list) \<Rightarrow> bool" where
  "set_iter_ok it = (\<forall>xs. distinct (it xs) \<and> set (it xs) = set xs)"

section \<open>The path filter\<close>

definition matches_any_glob :: "env \<Rightarrow> ustr \<Rightarrow> ustr list \<Rightarrow> bool" where
  "matches_any_glob e relpath globs = list_ex (\<lambda>pat. fnmatch e relpath pat) globs"

text \<open>
  \<^verbatim>\<open>include_pred(p)\<close> of \<^verbatim>\<open>build_snapshot\<close>; \<open>d\<close> is \<^verbatim>\<open>p.is_dir()\<close> and
  \<open>gitignore_pats\<close> the patterns loaded for the run.
\<close>

definition include_pred :: "env \<Rightarrow> options \<Rightarrow> ustr list \<Rightarrow> bool \<Rightarrow> path \<Rightarrow> bool" where
  "include_pred e opts gitignore_pats d p =
     (if d then path_name p \<notin> set (opt_exclude_dirs opts) \<and> \<not> startswith_dot (path_name p)
      else
        (let rel = rel_str p
         in if opt_exclude_globs opts \<noteq> [] \<and> matches_any_glob e rel (opt_exclude_globs opts)
            then False
            else if gitignore_pats \<noteq> [] \<and> matches_any_glob e rel gitignore_pats then False
            else if opt_include_globs opts \<noteq> [] \<and>
                    \<not> matches_any_glob e rel (opt_include_globs opts)
            then False
            else if path_name p \<in> set (opt_exclude_files opts) then False
            else lower (path_suffix (path_name p)) \<in> set (map lower (opt_include_exts opts))))"

section \<open>The gitignore adapter\<close>

text \<open>
  \<^verbatim>\<open>apply_gitignore_patterns(root)\<close>. Reading the file is outside every \<^verbatim>\<open>try\<close>: an
  exception there ends the run. \<^verbatim>\<open>read_text\<close> turns \<^verbatim>\<open>\r\n\<close> and \<^verbatim>\<open>\r\<close> into \<^verbatim>\<open>\n\<close>
  before \<^verbatim>\<open>splitlines\<close> cuts at them, which gives the lines that cutting the text as it
  is gives.
\<close>

fun startswith_hash :: "ustr \<Rightarrow> bool" where
  "startswith_hash [] = False"
| "startswith_hash (c # cs) = (c = 35)"

definition apply_gitignore_patterns :: "(ustr \<times> node) list \<Rightarrow> py_error + ustr list" where
  "apply_gitignore_patterns entries =
     (case map_of entries (S ''.gitignore'') of
        None \<Rightarrow> Inr []
      | Some (Dir sub) \<Rightarrow> Inl OSError
      | Some (File f) \<Rightarrow>
          (case f_data f of
             Inl e \<Rightarrow> Inl e
           | Inr data \<Rightarrow>
               Inr (filter (\<lambda>line. line \<noteq> [] \<and> \<not> startswith_hash line)
                      (map strip_ws (splitlines (decode_ignore data))))))"

section \<open>The tree renderer\<close>

definition iter_entries ::
    "env \<Rightarrow> options \<Rightarrow> ustr list \<Rightarrow> path \<Rightarrow> (ustr \<times> node) list \<Rightarrow> (ustr \<times> node) list" where
  "iter_entries e opts pats here entries =
     sort_key (\<lambda>(name, nd). (\<not> is_dir nd, lower name))
       (filter (\<lambda>(name, nd). include_pred e opts pats (is_dir nd) (here @ [name])) entries)"

lemma size_entry_less:
  "(name, nd) \<in> set entries \<Longrightarrow> size nd < size (Dir entries)"
  by (induction entries) auto

lemma iter_entries_subset: "set (iter_entries e opts pats here entries) \<subseteq> set entries"
  by (auto simp: iter_entries_def)

function walk ::
    "env \<Rightarrow> options \<Rightarrow> ustr list \<Rightarrow> path \<Rightarrow> (ustr \<times> node) list \<Rightarrow> ustr \<Rightarrow> ustr list" where
  "walk e opts pats here entries prefix =
     (let es = iter_entries e opts pats here entries
      in concat
           (map (\<lambda>(i, name, nd).
                   (prefix @ (if i = length es - 1 then S ''`-- '' else S ''|-- '') @ name) #
                   (case nd of
                      Dir sub \<Rightarrow>
                        walk e opts pats (here @ [name]) sub
                          (prefix @ (if i = length es - 1 then S ''    '' else S ''|   ''))
                    | File f \<Rightarrow> []))
              (enumerate 0 es)))"
  by pat_completeness auto
termination
proof (relation "measure (\<lambda>(e, opts, pats, here, entries, prefix). size (Dir entries))")
  show "wf (measure (\<lambda>(e, opts, pats, here, entries, prefix). size (Dir entries)))" by simp
next
  fix e opts pats here entries prefix es x i y name nd sub
  assume es: "es = iter_entries e opts pats here entries"
    and x: "x \<in> set (enumerate 0 es)" "(i, y) = x" "(name, nd) = y" "nd = Dir sub"
  from x have "(i, name, Dir sub) \<in> set (enumerate 0 es)"
    by auto
  then have "i < length es" and "es ! i = (name, Dir sub)"
    by (simp_all add: in_set_enumerate_eq)
  then have "(name, Dir sub) \<in> set es"
    using nth_mem [of i es] by simp
  then have "(name, Dir sub) \<in> set entries"
    using es iter_entries_subset by blast
  then have "size (Dir sub) < size (Dir entries)"
    by (rule size_entry_less)
  then show "((e, opts, pats, here @ [name], sub,
               prefix @ (if i = length es - 1 then S ''    '' else S ''|   '')),
              (e, opts, pats, here, entries, prefix))
             \<in> measure (\<lambda>(e, opts, pats, here, entries, prefix). size (Dir entries))"
    by simp
qed

declare walk.simps [simp del]

definition root_name :: "path \<Rightarrow> ustr" where
  "root_name r = (if r = [] then [] else last r)"

definition dir_tree_ascii ::
    "env \<Rightarrow> options \<Rightarrow> ustr list \<Rightarrow> (ustr \<times> node) list \<Rightarrow> ustr" where
  "dir_tree_ascii e opts pats entries =
     join (S ''\<newline>'') (root_name (opt_root opts) # walk e opts pats [] entries [])"

section \<open>The snapshot assembler\<close>

text \<open>
  The file collection of \<^verbatim>\<open>build_snapshot\<close>: \<^verbatim>\<open>os.walk(root)\<close> visits a directory, then
  its subdirectories in the listed order, after the loop has pruned \<^verbatim>\<open>dirnames\<close> in
  place; in each directory the names that are not directories are filtered by
  \<^verbatim>\<open>include_pred\<close>.
\<close>

function walk_files ::
    "env \<Rightarrow> options \<Rightarrow> ustr list \<Rightarrow> path \<Rightarrow> (ustr \<times> node) list \<Rightarrow> path list" where
  "walk_files e opts pats here entries =
     map (\<lambda>(fname, nd). here @ [fname])
       (filter (\<lambda>(fname, nd). \<not> is_dir nd \<and> include_pred e opts pats (is_dir nd) (here @ [fname]))
          entries) @
     concat
       (map (\<lambda>(d, nd). case nd of
                          Dir sub \<Rightarrow> walk_files e opts pats (here @ [d]) sub
                        | File f \<Rightarrow> [])
          (filter (\<lambda>(d, nd). is_dir nd \<and> d \<notin> set (opt_exclude_dirs opts) \<and> \<not> startswith_dot d)
             entries))"
  by pat_completeness auto
termination
proof (relation "measure (\<lambda>(e, opts, pats, here, entries). size (Dir entries))")
  show "wf (measure (\<lambda>(e, opts, pats, here, entries). size (Dir entries)))" by simp
next
  fix e opts pats here entries x d nd sub
  assume x: "x \<in> set (filter (\<lambda>(d, nd). is_dir nd \<and> d \<notin> set (opt_exclude_dirs opts) \<and>
                                   \<not> startswith_dot d) entries)"
    "(d, nd) = x" "nd = Dir sub"
  then have "(d, Dir sub) \<in> set entries"
    by auto
  then have "size (Dir sub) < size (Dir entries)"
    by (rule size_entry_less)
  then show "((e, opts, pats, here @ [d], sub), (e, opts, pats, here, entries))
             \<in> measure (\<lambda>(e, opts, pats, here, entries). size (Dir entries))"
    by simp
qed

declare walk_files.simps [simp del]

text \<open>
  \<^verbatim>\<open>sorted(set(files), key=lambda p: str(p).lower())\<close>: Python's \<^verbatim>\<open>sorted\<close> is stable, as
  \<open>sort_key\<close> is, so that paths with equal keys stay in the order in which the set hands
  them out.
\<close>

definition sorted_files :: "env \<Rightarrow> options \<Rightarrow> path list \<Rightarrow> path list" where
  "sorted_files e opts files =
     sort_key (\<lambda>p. lower (full_str (opt_root opts) p)) (set_iter e files)"

definition lang_from_suffix :: "ustr \<Rightarrow> ustr" where
  "lang_from_suffix suffix =
     (case map_of
        [(S ''.test'', S ''test''), (S ''.py'', S ''python''), (S ''.md'', S ''markdown''),
         (S ''.json'', S ''json''), (S ''.toml'', S ''toml''), (S ''.yml'', S ''yaml''),
         (S ''.yaml'', S ''yaml''), (S ''.txt'', S ''text''), (S ''.cfg'', S ''ini''),
         (S ''.ini'', S ''ini''), (S ''.html'', S ''html'')] suffix of
        Some lang \<Rightarrow> lang
      | None \<Rightarrow> [])"

text \<open>
  \<^verbatim>\<open>read_text_safely(path, max_bytes)\<close> at a path of the tree: a path that is missing, or
  that is a directory, makes \<^verbatim>\<open>open\<close> raise inside the \<^verbatim>\<open>try\<close> block.
\<close>

fun read_node :: "node option \<Rightarrow> int \<Rightarrow> ustr \<times> bool \<times> bool" where
  "read_node (Some (File f)) max_bytes = read_text_safely f max_bytes"
| "read_node (Some (Dir sub)) max_bytes = ([], False, True)"
| "read_node None max_bytes = ([], False, True)"

text \<open>Lines 309 to 313: the head and the tail of a text that the byte cap has cut.\<close>

definition shape_truncated :: "int \<Rightarrow> int \<Rightarrow> ustr \<Rightarrow> ustr" where
  "shape_truncated head_lines tail_lines text =
     (let lines = splitlines text;
          head = (if 0 < head_lines then take (nat head_lines) lines else []);
          tail = (if 0 < tail_lines then drop (length lines - nat tail_lines) lines else [])
      in join (S ''\<newline>'') (head @ [[], S ''... [truncated] ...'', []] @ tail))"

definition section_text :: "ustr \<Rightarrow> ustr \<Rightarrow> ustr \<Rightarrow> ustr" where
  "section_text rel code_lang text =
     S ''## '' @ rel @ S ''\<newline>```'' @ code_lang @ S ''\<newline>'' @ text @ S ''\<newline>```\<newline>\<newline>''"

record loop_state =
  out :: "ustr list"
  total_files :: nat
  truncated_files :: nat
  skipped_binaries :: nat

text \<open>One turn of the loop \<^verbatim>\<open>for path in files\<close> (lines 298 to 322).\<close>

definition file_step :: "(ustr \<times> node) list \<Rightarrow> options \<Rightarrow> loop_state \<Rightarrow> path \<Rightarrow> loop_state" where
  "file_step entries opts st p =
     (let st1 = st\<lparr>total_files := total_files st + 1\<rparr>;
          rel = rel_str p;
          code_lang = lang_from_suffix (lower (path_suffix (path_name p)));
          (text, truncated, bin_skip) = read_node (lookup entries p) (opt_max_bytes opts)
      in if bin_skip \<and> text = [] then st1\<lparr>skipped_binaries := skipped_binaries st1 + 1\<rparr>
         else
           (let text1 =
                  (if truncated \<and> (0 < opt_head_lines opts \<or> 0 < opt_tail_lines opts)
                   then shape_truncated (opt_head_lines opts) (opt_tail_lines opts) text
                   else text);
                st2 = (if truncated then st1\<lparr>truncated_files := truncated_files st1 + 1\<rparr>
                       else st1);
                text2 = strip_nl text1
            in st2\<lparr>out := out st2 @ [section_text rel code_lang text2]\<rparr>))"

definition initial_state :: "ustr \<Rightarrow> loop_state" where
  "initial_state tree_txt =
     \<lparr>out = [S ''# Project Snapshot\<newline>'', S ''## Directory Tree\<newline>'', S ''```text\<newline>'',
             tree_txt, S ''\<newline>```\<newline>\<newline>''],
      total_files = 0, truncated_files = 0, skipped_binaries = 0\<rparr>"

definition stats_footer :: "options \<Rightarrow> loop_state \<Rightarrow> ustr list" where
  "stats_footer opts st =
     (if opt_show_stats opts
      then [S ''---\<newline>'', S ''## Snapshot Stats\<newline>'',
            S ''- files_included: '' @ str_of_nat (total_files st) @ S ''\<newline>''] @
           (if opt_max_bytes opts \<noteq> 0
            then [S ''- files_truncated_by_bytes: '' @ str_of_nat (truncated_files st) @
                  S ''\<newline>'']
            else []) @
           [S ''- files_skipped_as_binary_or_unreadable: '' @
            str_of_nat (skipped_binaries st) @ S ''\<newline>'']
      else [])"

text \<open>
  The state after the loop, and the document \<^verbatim>\<open>"".join(out)\<close>, for the patterns
  \<open>pats\<close> that the run has loaded.
\<close>

definition final_state ::
    "env \<Rightarrow> (ustr \<times> node) list \<Rightarrow> options \<Rightarrow> ustr list \<Rightarrow> loop_state" where
  "final_state e entries opts pats =
     foldl (file_step entries opts) (initial_state (dir_tree_ascii e opts pats entries))
       (sorted_files e opts (walk_files e opts pats [] entries))"

definition assemble :: "env \<Rightarrow> (ustr \<times> node) list \<Rightarrow> options \<Rightarrow> ustr list \<Rightarrow> ustr" where
  "assemble e entries opts pats =
     (let st = final_state e entries opts pats
      in concat (out st @ stats_footer opts st))"

text \<open>
  \<^verbatim>\<open>build_snapshot(opts)\<close> over the tree \<open>fs\<close> at the root: the document, or the exception
  that ends the run. A root that is not a directory makes \<^verbatim>\<open>iterdir\<close> raise.
\<close>

definition build_snapshot :: "env \<Rightarrow> node \<Rightarrow> options \<Rightarrow> py_error + ustr" where
  "build_snapshot e fs opts =
     (case fs of
        File f \<Rightarrow> Inl OSError
      | Dir entries \<Rightarrow>
          (case (if opt_respect_gitignore opts then apply_gitignore_patterns entries
                 else Inr []) of
             Inl err \<Rightarrow> Inl err
           | Inr pats \<Rightarrow> Inr (assemble e entries opts pats)))"

section \<open>What one file contributes\<close>

text \<open>
  The result of the reader at a path, and what a turn of the loop makes of it: whether the
  file is skipped (\<^verbatim>\<open>bin_skip and not text\<close>), whether it is truncated, and its section.
\<close>

definition read_path :: "(ustr \<times> node) list \<Rightarrow> options \<Rightarrow> path \<Rightarrow> ustr \<times> bool \<times> bool" where
  "read_path entries opts p = read_node (lookup entries p) (opt_max_bytes opts)"

definition is_skipped :: "(ustr \<times> node) list \<Rightarrow> options \<Rightarrow> path \<Rightarrow> bool" where
  "is_skipped entries opts p =
     (case read_path entries opts p of (text, truncated, bin_skip) \<Rightarrow> bin_skip \<and> text = [])"

definition is_truncated :: "(ustr \<times> node) list \<Rightarrow> options \<Rightarrow> path \<Rightarrow> bool" where
  "is_truncated entries opts p =
     (case read_path entries opts p of (text, truncated, bin_skip) \<Rightarrow> truncated)"

definition section_of :: "(ustr \<times> node) list \<Rightarrow> options \<Rightarrow> path \<Rightarrow> ustr" where
  "section_of entries opts p =
     (case read_path entries opts p of
        (text, truncated, bin_skip) \<Rightarrow>
          section_text (rel_str p) (lang_from_suffix (lower (path_suffix (path_name p))))
            (strip_nl
               (if truncated \<and> (0 < opt_head_lines opts \<or> 0 < opt_tail_lines opts)
                then shape_truncated (opt_head_lines opts) (opt_tail_lines opts) text
                else text)))"

text \<open>
  An environment for the closed examples: a pattern without wildcard characters matches
  the name equal to it, and the set hands its paths out in the order of their first
  insertion.
\<close>

definition env0 :: env where
  "env0 = \<lparr>fnmatch = (\<lambda>name pat. name = pat), set_iter = remdups\<rparr>"

text \<open>ASCII source text as the bytes of a file.\<close>

definition B :: "string \<Rightarrow> bytes" where
  "B cs = map of_char cs"

text \<open>\<open>occurs_in xs ys\<close>: the text \<open>xs\<close> stands somewhere in the text \<open>ys\<close>.\<close>

definition occurs_in :: "ustr \<Rightarrow> ustr \<Rightarrow> bool" where
  "occurs_in xs ys = list_ex (\<lambda>i. take (length xs) (drop i ys) = xs) [0..<Suc (length ys)]"

section \<open>Lemmas\<close>

lemmas str_defs = S_def B_def lower_def lower_cp_def path_suffix_def rfind_dot_def path_name_def
  rel_str_def full_str_def

lemmas sniff_defs = looks_binary_def count_high_def truediv_def binade.simps
  round_half_even_def double_0_30_def

lemmas decode_defs = decode_replace_def decode_ignore_def is_cont_def bad_second3_def
  bad_second4_def cp2_def cp3_def cp4_def

lemmas default_defs = default_options_def DEFAULT_INCLUDE_EXTS_def DEFAULT_EXCLUDE_DIRS_def
  DEFAULT_EXCLUDE_FILES_def

lemma set_iter_ok_remdups: "set_iter_ok remdups"
  by (simp add: set_iter_ok_def)

lemma set_iter_ok_env0: "set_iter_ok (set_iter env0)"
  by (simp add: env0_def set_iter_ok_remdups)

lemma set_iter_single:
  assumes "set_iter_ok it"
  shows "it [x] = [x]"
proof -
  from assms have d: "distinct (it [x])" and s: "set (it [x]) = {x}"
    by (simp_all add: set_iter_ok_def)
  show ?thesis
  proof (cases "it [x]")
    case Nil
    with s show ?thesis by simp
  next
    case (Cons a as)
    with d s have "a = x" and "set as \<subseteq> {x}" and "x \<notin> set as" by auto
    then have "as = []" by (cases as) auto
    with Cons \<open>a = x\<close> show ?thesis by simp
  qed
qed

subsection \<open>The loop over the files\<close>

lemma file_step_alt:
  "file_step entries opts st p =
     (if is_skipped entries opts p
      then st\<lparr>total_files := total_files st + 1, skipped_binaries := skipped_binaries st + 1\<rparr>
      else st\<lparr>total_files := total_files st + 1,
              truncated_files := truncated_files st + (if is_truncated entries opts p then 1 else 0),
              out := out st @ [section_of entries opts p]\<rparr>)"
  by (cases "read_node (lookup entries p) (opt_max_bytes opts)")
     (simp add: file_step_def is_skipped_def is_truncated_def section_of_def read_path_def Let_def)

lemma foldl_total:
  "total_files (foldl (file_step entries opts) st ps) = total_files st + length ps"
  by (induction ps arbitrary: st) (simp_all add: file_step_alt)

lemma foldl_skipped:
  "skipped_binaries (foldl (file_step entries opts) st ps) =
     skipped_binaries st + length (filter (is_skipped entries opts) ps)"
  by (induction ps arbitrary: st) (simp_all add: file_step_alt)

lemma foldl_truncated:
  "truncated_files (foldl (file_step entries opts) st ps) =
     truncated_files st +
     length (filter (\<lambda>p. is_truncated entries opts p \<and> \<not> is_skipped entries opts p) ps)"
  by (induction ps arbitrary: st) (simp_all add: file_step_alt)

lemma foldl_out:
  "out (foldl (file_step entries opts) st ps) =
     out st @ map (section_of entries opts) (filter (\<lambda>p. \<not> is_skipped entries opts p) ps)"
  by (induction ps arbitrary: st) (simp_all add: file_step_alt)

subsection \<open>The order of emission\<close>

lemma sorted_files_props:
  assumes "set_iter_ok (set_iter e)"
  shows "distinct (sorted_files e opts files)"
    and "set (sorted_files e opts files) = set files"
    and "sorted (map (\<lambda>p. lower (full_str (opt_root opts) p)) (sorted_files e opts files))"
  using assms by (simp_all add: sorted_files_def set_iter_ok_def)



subsection \<open>The division of the sniffer\<close>

lemma binade_ge: "0 < k \<Longrightarrow> n \<le> k * 2 ^ binade k n j"
  by (induction k n j rule: binade.induct) (subst binade.simps, simp)

lemma binade_least: "0 < k \<Longrightarrow> binade k n j \<noteq> j \<Longrightarrow> k * 2 ^ (binade k n j - 1) < n"
proof (induction k n j rule: binade.induct)
  case (1 k n j)
  show ?case
  proof (cases "n \<le> k * 2 ^ j")
    case True
    with "1.prems" show ?thesis by (simp add: binade.simps)
  next
    case False
    then have eq: "binade k n j = binade k n (Suc j)"
      using "1.prems" by (subst binade.simps) simp
    show ?thesis
    proof (cases "binade k n (Suc j) = Suc j")
      case True
      with eq False show ?thesis by simp
    next
      case neq: False
      with "1.IH" False "1.prems" eq show ?thesis by simp
    qed
  qed
qed

text \<open>Rounding to the nearest integer, away from the tie: above and below a half.\<close>

lemma round_half_even_ge:
  assumes "0 < n" "(2 * c + 1) * n < 2 * a"
  shows "c + 1 \<le> round_half_even a n"
proof -
  let ?q = "a div n" and ?r = "a mod n"
  have r: "?r < n" using assms(1) by simp
  have e1: "(2 * c + 1) * n = 2 * (c * n) + n" by (simp add: algebra_simps)
  have e2: "2 * (?q * n) + 2 * ?r = 2 * a" using div_mult_mod_eq [of a n] by linarith
  have cq: "c \<le> ?q"
  proof (rule ccontr)
    assume "\<not> c \<le> ?q"
    then have "?q + 1 \<le> c" by simp
    then have "(?q + 1) * n \<le> c * n" by (rule mult_le_mono1)
    then have "?q * n + n \<le> c * n" by (simp add: algebra_simps)
    with e1 e2 r assms(2) show False by linarith
  qed
  show ?thesis
  proof (cases "c = ?q")
    case True
    then have "c * n = ?q * n" by simp
    with e1 e2 assms(2) have "n < 2 * ?r" by linarith
    then show ?thesis using True by (simp add: round_half_even_def Let_def)
  next
    case False
    with cq have "c + 1 \<le> ?q" by simp
    then show ?thesis by (simp add: round_half_even_def Let_def)
  qed
qed

lemma round_half_even_le:
  assumes "0 < n" "2 * a < (2 * c + 1) * n"
  shows "round_half_even a n \<le> c"
proof -
  let ?q = "a div n" and ?r = "a mod n"
  have e1: "(2 * c + 1) * n = 2 * (c * n) + n" by (simp add: algebra_simps)
  have e2: "2 * (?q * n) + 2 * ?r = 2 * a" using div_mult_mod_eq [of a n] by linarith
  have qc: "?q \<le> c"
  proof (rule ccontr)
    assume "\<not> ?q \<le> c"
    then have "c + 1 \<le> ?q" by simp
    then have "(c + 1) * n \<le> ?q * n" by (rule mult_le_mono1)
    then have "c * n + n \<le> ?q * n" by (simp add: algebra_simps)
    with e1 e2 assms(2) show False by linarith
  qed
  show ?thesis
  proof (cases "c = ?q")
    case True
    then have "c * n = ?q * n" by simp
    with e1 e2 assms(2) have "2 * ?r < n" by linarith
    then show ?thesis using True by (simp add: round_half_even_def Let_def)
  next
    case False
    with qc have "?q + 1 \<le> c" by simp
    then show ?thesis by (simp add: round_half_even_def Let_def)
  qed
qed

text \<open>
  Below \<open>2^52\<close> bytes the comparison of the two binary64 numbers decides the comparison of
  the exact quotient with 3/10.
\<close>

lemma truediv_gt_double_0_30:
  assumes n: "0 < n" and kn: "k \<le> n" and small: "n < 2 ^ 52"
  shows "(double_0_30 < truediv k n) = (3 * n < 10 * k)"
proof (cases "k = 0")
  case True
  then show ?thesis
    by (simp add: truediv_def binade.simps round_half_even_def double_0_30_def)
next
  case False
  then have k: "0 < k" by simp
  define j where "j = binade k n 0"
  define m where "m = round_half_even (k * 2 ^ (52 + j)) n"
  have ge: "n \<le> k * 2 ^ j"
    unfolding j_def using k by (rule binade_ge)
  have least: "j \<noteq> 0 \<Longrightarrow> k * 2 ^ (j - 1) < n"
    unfolding j_def using k by (rule binade_least)
  have j52: "j \<le> 52"
  proof (rule ccontr)
    assume "\<not> j \<le> 52"
    then have "53 \<le> j" by simp
    then have "(2::nat) ^ 52 \<le> 2 ^ (j - 1)" by (intro power_increasing) simp_all
    also have "\<dots> \<le> k * 2 ^ (j - 1)" using k by simp
    also have "\<dots> < n" using least \<open>53 \<le> j\<close> by simp
    finally show False using small by simp
  qed
  have td: "truediv k n = of_nat m / 2 ^ (52 + j)"
    using j52 by (simp add: truediv_def Let_def j_def [symmetric] m_def)
  show ?thesis
  proof (cases "3 * n < 10 * k")
    case above: True
    have "j \<le> 2"
    proof (rule ccontr)
      assume "\<not> j \<le> 2"
      then have "3 \<le> j" by simp
      then have "(2::nat) ^ 2 \<le> 2 ^ (j - 1)" by (intro power_increasing) simp_all
      then have "k * 4 \<le> k * 2 ^ (j - 1)" by simp
      also have "\<dots> < n" using least \<open>3 \<le> j\<close> by simp
      finally show False using above by simp
    qed
    then consider "j = 0" | "j = 1" | "j = 2" by linarith
    then have "double_0_30 < of_nat m / 2 ^ (52 + j)"
    proof cases
      case 1
      have "(2 * (2 ^ 52 - 1) + 1) * n < 2 * (k * 2 ^ (52 + j))"
        using ge n 1 by simp
      then have "(2 ^ 52 - 1) + 1 \<le> m"
        unfolding m_def using n by (intro round_half_even_ge)
      then have "(2::rat) ^ 52 \<le> of_nat m"
        by (metis of_nat_le_iff of_nat_numeral of_nat_power add.commute le_add_diff_inverse
            one_le_numeral one_le_power)
      then show ?thesis using 1 by (simp add: double_0_30_def field_simps)
    next
      case 2
      have "n \<le> k * 2" using ge 2 by simp
      then have "(2 * (2 ^ 52 - 1) + 1) * n < 2 * (k * 2 ^ (52 + j))"
        using n 2 by simp
      then have "(2 ^ 52 - 1) + 1 \<le> m"
        unfolding m_def using n by (intro round_half_even_ge)
      then have "(2::rat) ^ 52 \<le> of_nat m"
        by (metis of_nat_le_iff of_nat_numeral of_nat_power add.commute le_add_diff_inverse
            one_le_numeral one_le_power)
      then show ?thesis using 2 by (simp add: double_0_30_def field_simps)
    next
      case 3
      have "(2 * 5404319552844595 + 1) * n < 2 * (k * 2 ^ (52 + j))"
        using above small 3 by simp
      then have "5404319552844595 + 1 \<le> m"
        unfolding m_def using n by (intro round_half_even_ge)
      then have "(5404319552844596::rat) \<le> of_nat m"
        by (metis of_nat_le_iff of_nat_numeral numeral_plus_one add.commute semiring_norm(5)
            semiring_norm(8) semiring_norm(2))
      then show ?thesis using 3 by (simp add: double_0_30_def field_simps)
    qed
    with td above show ?thesis by simp
  next
    case below: False
    have "2 \<le> j"
    proof (rule ccontr)
      assume "\<not> 2 \<le> j"
      then have "j = 0 \<or> j = 1" by linarith
      then have "n \<le> k * 2" using ge by auto
      with below k show False by simp
    qed
    have "of_nat m / 2 ^ (52 + j) \<le> double_0_30"
    proof (cases "j = 2")
      case True
      have "2 * (k * 2 ^ (52 + j)) < (2 * 5404319552844595 + 1) * n"
        using below n True by simp
      then have "m \<le> 5404319552844595"
        unfolding m_def using n by (intro round_half_even_le)
      then have "of_nat m \<le> (5404319552844595::rat)"
        by (metis of_nat_le_iff of_nat_numeral)
      then show ?thesis using True by (simp add: double_0_30_def field_simps)
    next
      case False
      with \<open>2 \<le> j\<close> have j3: "3 \<le> j" by simp
      have "52 + j = (j - 1) + 53" using j3 by simp
      then have "(2::nat) ^ (52 + j) = 2 ^ (j - 1) * 2 ^ 53"
        by (simp only: power_add)
      then have "k * 2 ^ (52 + j) = k * 2 ^ (j - 1) * 2 ^ 53"
        by (simp only: mult.assoc)
      also have "\<dots> < n * 2 ^ 53" using least j3 by simp
      finally have "2 * (k * 2 ^ (52 + j)) < (2 * 2 ^ 53 + 1) * n" by simp
      then have "m \<le> 2 ^ 53"
        unfolding m_def using n by (intro round_half_even_le)
      then have m53: "of_nat m \<le> (2::rat) ^ 53"
        by (metis of_nat_le_iff of_nat_numeral of_nat_power)
      have "(2::rat) ^ 55 \<le> 2 ^ (52 + j)" using j3 by (intro power_increasing) simp_all
      with m53 have "of_nat m / 2 ^ (52 + j) \<le> (2::rat) ^ 53 / 2 ^ 55"
        by (intro frac_le) simp_all
      also have "\<dots> \<le> double_0_30" by (simp add: double_0_30_def)
      finally show ?thesis .
    qed
    with td below show ?thesis by simp
  qed
qed

section \<open>The claims\<close>

subsection \<open>C1: the file rule of the path filter\<close>



subsection \<open>C2: the reader\<close>

text \<open>
  Claim C2. Let a file be readable, with its size the number of its bytes. If \<open>max_bytes\<close>
  is 0, or the size does not exceed \<open>max_bytes\<close>, the reader reads the whole file; it
  returns binary-skipped with empty text when the sniffer calls the content binary, and
  otherwise the content decoded as UTF-8 with replacement, not truncated. If the size
  exceeds \<open>max_bytes > 0\<close>, the reader reads exactly \<open>max_bytes + 1\<close> bytes, the sniffer
  classifies that sample (binary-skipped if binary), and otherwise the reader returns the
  decoded sample, truncated. Decoding is a total function: ill-formed input is replaced and
  never raises.
\<close>

theorem read_text_safely_cases:
  assumes "f_stat f = Inr (length data)" and "f_data f = Inr data"
  shows "(max_bytes = 0 \<or> int (length data) \<le> max_bytes \<longrightarrow>
            file_read f None = Inr data \<and>
            read_text_safely f max_bytes =
              (if looks_binary data then ([], False, True)
               else (decode_replace data, False, False))) \<and>
         (0 < max_bytes \<and> max_bytes < int (length data) \<longrightarrow>
            (\<exists>sample. file_read f (Some (max_bytes + 1)) = Inr sample \<and>
               int (length sample) = max_bytes + 1 \<and>
               read_text_safely f max_bytes =
                 (if looks_binary sample then ([], False, True)
                  else (decode_replace sample, True, False))))"
  using assms
  by (auto simp: read_text_safely_def read_text_try_def file_read_def)

theorem read_text_safely_cases_witness:
  "read_text_safely \<lparr>f_stat = Inr 4, f_data = Inr (B ''abcd'')\<rparr> 0 = (S ''abcd'', False, False) \<and>
   read_text_safely \<lparr>f_stat = Inr 4, f_data = Inr (B ''abcd'')\<rparr> 4 = (S ''abcd'', False, False) \<and>
   read_text_safely \<lparr>f_stat = Inr 4, f_data = Inr (B ''abcd'')\<rparr> 2 = (S ''abc'', True, False) \<and>
   read_text_safely \<lparr>f_stat = Inr 4, f_data = Inr [0x61, 0, 0x63, 0x64]\<rparr> 2 = ([], False, True) \<and>
   read_text_safely \<lparr>f_stat = Inr 4, f_data = Inr [0x61, 0x62, 0x63, 0xFF]\<rparr> 0 =
     ([0x61, 0x62, 0x63, 0xFFFD], False, False)"
proof -
  let ?f = "\<lparr>f_stat = Inr 4, f_data = Inr (B ''abcd'')\<rparr>"
  let ?g = "\<lparr>f_stat = Inr 4, f_data = Inr [0x61, 0, 0x63, 0x64 :: byte]\<rparr>"
  let ?h = "\<lparr>f_stat = Inr 4, f_data = Inr [0x61, 0x62, 0x63, 0xFF :: byte]\<rparr>"
  have f: "f_stat ?f = Inr (length (B ''abcd''))" "f_data ?f = Inr (B ''abcd'')"
    by (simp_all add: B_def)
  have g: "f_stat ?g = Inr (length [0x61, 0, 0x63, 0x64 :: byte])"
    "f_data ?g = Inr [0x61, 0, 0x63, 0x64]"
    by simp_all
  have h: "f_stat ?h = Inr (length [0x61, 0x62, 0x63, 0xFF :: byte])"
    "f_data ?h = Inr [0x61, 0x62, 0x63, 0xFF]"
    by simp_all
  show ?thesis
    using read_text_safely_cases [OF f, of 0] read_text_safely_cases [OF f, of 4]
      read_text_safely_cases [OF f, of 2] read_text_safely_cases [OF g, of 2]
      read_text_safely_cases [OF h, of 0]
    by (simp add: file_read_def sniff_defs decode_defs str_defs Let_def)
qed

subsection \<open>C6: the binary sniffer\<close>

text \<open>
  Claim C6. The sniffer calls an empty sample not binary and a sample with a NUL byte
  binary; any other sample is binary if and only if the fraction of its bytes above 0x7F
  strictly exceeds 0.30. The source compares two binary64 numbers, the rounded quotient and
  the literal \<^verbatim>\<open>0.30\<close>; for every sample of fewer than \<open>2^52\<close> bytes (four petabytes) this
  is the comparison of the exact fraction with 3/10, which is what the theorem states.
\<close>

theorem looks_binary_classification:
  "looks_binary [] = False \<and>
   (0 \<in> set sample \<longrightarrow> looks_binary sample) \<and>
   (sample \<noteq> [] \<and> 0 \<notin> set sample \<and> length sample < 2 ^ 52 \<longrightarrow>
      looks_binary sample =
        (3 / 10 < (of_nat (length (filter (\<lambda>ch. 0x7F < ch) sample)) / of_nat (length sample) :: rat)))"
proof (intro conjI impI)
  show "looks_binary [] = False"
    by (simp add: looks_binary_def)
next
  assume "0 \<in> set sample"
  then show "looks_binary sample"
    by (auto simp: looks_binary_def)
next
  let ?k = "length (filter (\<lambda>ch. 0x7F < ch) sample)" and ?n = "length sample"
  assume a: "sample \<noteq> [] \<and> 0 \<notin> set sample \<and> length sample < 2 ^ 52"
  then have n: "0 < ?n" by simp
  have "looks_binary sample = (double_0_30 < truediv ?k ?n)"
    using a by (simp add: looks_binary_def count_high_def)
  also have "\<dots> = (3 * ?n < 10 * ?k)"
    using n a by (intro truediv_gt_double_0_30) simp_all
  also have "\<dots> = ((3::rat) * of_nat ?n < 10 * of_nat ?k)"
    unfolding of_nat_less_iff [where ?'a = rat, symmetric] by simp
  also have "\<dots> = (3 / 10 < (of_nat ?k / of_nat ?n :: rat))"
    using n by (simp add: field_simps)
  finally show "looks_binary sample = (3 / 10 < (of_nat ?k / of_nat ?n :: rat))" .
qed

theorem looks_binary_classification_witness:
  "looks_binary [0x41, 0x00, 0x42] \<and>
   looks_binary [0x41, 0xC3, 0xA9, 0x42] \<and>
   \<not> looks_binary [0x41, 0x42, 0x43, 0x44, 0x45, 0x46, 0x47, 0xC3, 0xA9, 0xA9]"
  using looks_binary_classification [of "[0x41, 0x00, 0x42]"]
    looks_binary_classification [of "[0x41, 0xC3, 0xA9, 0x42]"]
    looks_binary_classification [of "[0x41, 0x42, 0x43, 0x44, 0x45, 0x46, 0x47, 0xC3, 0xA9, 0xA9]"]
  by simp

subsection \<open>C3: shaping a text cut by the byte cap\<close>

text \<open>
  Claim C3. Let a readable file of size \<open>sz\<close> be processed by the loop with the byte cap
  \<open>N = max_bytes\<close>. If \<open>0 < N < sz\<close> and the sample of \<open>N + 1\<close> bytes is not binary, the
  file is counted as truncated, and its section holds, when \<open>head_lines\<close> or \<open>tail_lines\<close>
  is positive, the first \<open>head_lines\<close> lines and the last \<open>tail_lines\<close> lines of the decoded
  text, joined by line feeds with an empty line, the line \<^verbatim>\<open>... [truncated] ...\<close> and
  another empty line between them; when both counts are zero it holds the decoded text as
  it is. (The body of a section is stripped of line feeds at both ends, as that of every
  section is.) A file with \<open>sz \<le> N\<close> is not counted as truncated. The counter is what the
  footer prints as \<^verbatim>\<open>files_truncated_by_bytes\<close> when a cap is set.
\<close>

theorem truncation_shaping:
  assumes "lookup entries p = Some (File f)" and "f_stat f = Inr sz" and "f_data f = Inr data"
  shows
    "(0 < opt_max_bytes opts \<and> opt_max_bytes opts < int sz \<and>
      \<not> looks_binary (take (nat (opt_max_bytes opts + 1)) data) \<longrightarrow>
        (let text = decode_replace (take (nat (opt_max_bytes opts + 1)) data);
             lines = splitlines text;
             emitted =
               (if 0 < opt_head_lines opts \<or> 0 < opt_tail_lines opts
                then join (S ''\<newline>'')
                       (take (nat (opt_head_lines opts)) lines @
                        [[], S ''... [truncated] ...'', []] @
                        drop (length lines - nat (opt_tail_lines opts)) lines)
                else text)
         in file_step entries opts st p =
              st\<lparr>total_files := total_files st + 1,
                 truncated_files := truncated_files st + 1,
                 out := out st @
                   [section_text (rel_str p)
                      (lang_from_suffix (lower (path_suffix (path_name p)))) (strip_nl emitted)]\<rparr>)) \<and>
     (int sz \<le> opt_max_bytes opts \<longrightarrow>
        truncated_files (file_step entries opts st p) = truncated_files st) \<and>
     (opt_show_stats opts \<and> opt_max_bytes opts \<noteq> 0 \<longrightarrow>
        S ''- files_truncated_by_bytes: '' @ str_of_nat (truncated_files st) @ S ''\<newline>''
          \<in> set (stats_footer opts st))"
proof (intro conjI impI)
  let ?N = "opt_max_bytes opts"
  let ?sample = "take (nat (?N + 1)) data"
  assume a: "0 < ?N \<and> ?N < int sz \<and> \<not> looks_binary ?sample"
  then have "read_text_safely f ?N = (decode_replace ?sample, True, False)"
    using assms by (simp add: read_text_safely_def read_text_try_def file_read_def)
  then have r: "read_node (lookup entries p) ?N = (decode_replace ?sample, True, False)"
    using assms(1) by simp
  show "let text = decode_replace ?sample;
            lines = splitlines text;
            emitted =
              (if 0 < opt_head_lines opts \<or> 0 < opt_tail_lines opts
               then join (S ''\<newline>'')
                      (take (nat (opt_head_lines opts)) lines @
                       [[], S ''... [truncated] ...'', []] @
                       drop (length lines - nat (opt_tail_lines opts)) lines)
               else text)
        in file_step entries opts st p =
             st\<lparr>total_files := total_files st + 1,
                truncated_files := truncated_files st + 1,
                out := out st @
                  [section_text (rel_str p)
                     (lang_from_suffix (lower (path_suffix (path_name p)))) (strip_nl emitted)]\<rparr>"
    by (simp add: file_step_def r Let_def shape_truncated_def)
next
  assume "int sz \<le> opt_max_bytes opts"
  then have "\<not> is_truncated entries opts p"
    using assms
    by (auto simp: is_truncated_def read_path_def read_text_safely_def read_text_try_def
        file_read_def)
  then show "truncated_files (file_step entries opts st p) = truncated_files st"
    by (simp add: file_step_alt)
next
  assume "opt_show_stats opts \<and> opt_max_bytes opts \<noteq> 0"
  then show "S ''- files_truncated_by_bytes: '' @ str_of_nat (truncated_files st) @ S ''\<newline>''
               \<in> set (stats_footer opts st)"
    by (simp add: stats_footer_def)
qed

text \<open>A file of twelve bytes in three lines, cut at five bytes, with one line of head and tail.\<close>

definition fs_small :: "(ustr \<times> node) list" where
  "fs_small =
     [(S ''t.py'', File \<lparr>f_stat = Inr 12, f_data = Inr (B ''a\<newline>b\<newline>c\<newline>d\<newline>e\<newline>f\<newline>'')\<rparr>)]"

definition opts_small :: options where
  "opts_small = (default_options [S ''proj''])
     \<lparr>opt_max_bytes := 5, opt_head_lines := 1, opt_tail_lines := 1\<rparr>"

theorem truncation_shaping_witness:
  "file_step fs_small opts_small (initial_state []) [S ''t.py''] =
     (initial_state [])
       \<lparr>total_files := 1, truncated_files := 1,
        out := out (initial_state []) @
          [S ''## t.py\<newline>```python\<newline>a\<newline>\<newline>... [truncated] ...\<newline>\<newline>c\<newline>```\<newline>\<newline>'']\<rparr> \<and>
   truncated_files
     (file_step fs_small (opts_small\<lparr>opt_max_bytes := 12\<rparr>) (initial_state []) [S ''t.py'']) = 0 \<and>
   S ''- files_truncated_by_bytes: 0\<newline>'' \<in> set (stats_footer opts_small (initial_state []))"
proof -
  let ?f = "\<lparr>f_stat = Inr 12, f_data = Inr (B ''a\<newline>b\<newline>c\<newline>d\<newline>e\<newline>f\<newline>'')\<rparr>"
  have l: "lookup fs_small [S ''t.py''] = Some (File ?f)"
    by (simp add: fs_small_def)
  have s: "f_stat ?f = Inr 12" and d: "f_data ?f = Inr (B ''a\<newline>b\<newline>c\<newline>d\<newline>e\<newline>f\<newline>'')"
    by simp_all
  show ?thesis
    using truncation_shaping [OF l s d, of opts_small "initial_state []"]
      truncation_shaping [OF l s d, of "opts_small\<lparr>opt_max_bytes := 12\<rparr>" "initial_state []"]
    by (simp add: opts_small_def default_defs sniff_defs decode_defs splitlines_def
        is_linebreak_def Let_def initial_state_def section_text_def lang_from_suffix_def
        strip_nl_def str_of_nat.simps str_defs)
qed

subsection \<open>C7: a file that cannot be read\<close>

text \<open>
  Claim C7. When reading a file raises (the size cannot be asked for, the file cannot be
  opened or read), the reader returns binary-skipped with empty text; the file gets no
  section and is counted in \<^verbatim>\<open>files_skipped_as_binary_or_unreadable\<close>; the loop goes on
  with the files after it as if the file were not in the list, and the run ends with a
  document unless loading the gitignore patterns fails.
\<close>

theorem unreadable_file_is_skipped:
  assumes "lookup entries p = Some (File f)"
    and "read_text_try f (opt_max_bytes opts) = Inl err"
  shows
    "read_text_safely f (opt_max_bytes opts) = ([], False, True) \<and>
     file_step entries opts st p =
       st\<lparr>total_files := total_files st + 1, skipped_binaries := skipped_binaries st + 1\<rparr> \<and>
     out (foldl (file_step entries opts) st (ps @ p # qs)) =
       out (foldl (file_step entries opts) st (ps @ qs)) \<and>
     skipped_binaries (foldl (file_step entries opts) st (ps @ p # qs)) =
       skipped_binaries (foldl (file_step entries opts) st (ps @ qs)) + 1 \<and>
     ((opt_respect_gitignore opts \<longrightarrow> (\<exists>pats. apply_gitignore_patterns entries = Inr pats)) \<longrightarrow>
        (\<exists>doc. build_snapshot e (Dir entries) opts = Inr doc))"
proof -
  have r: "read_text_safely f (opt_max_bytes opts) = ([], False, True)"
    using assms(2) by (simp add: read_text_safely_def)
  then have sk: "is_skipped entries opts p"
    using assms(1) by (simp add: is_skipped_def read_path_def)
  have "(opt_respect_gitignore opts \<longrightarrow> (\<exists>pats. apply_gitignore_patterns entries = Inr pats)) \<longrightarrow>
        (\<exists>doc. build_snapshot e (Dir entries) opts = Inr doc)"
    by (auto simp: build_snapshot_def)
  with r sk show ?thesis
    by (simp add: file_step_alt foldl_out foldl_skipped)
qed

definition fs_denied :: "(ustr \<times> node) list" where
  "fs_denied =
     [(S ''a.py'', File \<lparr>f_stat = Inr 8, f_data = Inl OSError\<rparr>),
      (S ''b.py'', File \<lparr>f_stat = Inr 2, f_data = Inr (B ''x\<newline>'')\<rparr>)]"

theorem unreadable_file_is_skipped_witness:
  "read_text_safely \<lparr>f_stat = Inr 8, f_data = Inl OSError\<rparr> 0 = ([], False, True) \<and>
   file_step fs_denied (default_options [S ''proj'']) (initial_state []) [S ''a.py''] =
     (initial_state [])\<lparr>total_files := 1, skipped_binaries := 1\<rparr> \<and>
   out (foldl (file_step fs_denied (default_options [S ''proj''])) (initial_state [])
          [[S ''a.py''], [S ''b.py'']]) =
     out (foldl (file_step fs_denied (default_options [S ''proj''])) (initial_state [])
          [[S ''b.py'']]) \<and>
   (\<exists>doc. build_snapshot env0 (Dir fs_denied) (default_options [S ''proj'']) = Inr doc)"
proof -
  let ?f = "\<lparr>f_stat = Inr 8, f_data = Inl OSError\<rparr> :: pyfile"
  let ?opts = "default_options [S ''proj'']"
  have l: "lookup fs_denied [S ''a.py''] = Some (File ?f)"
    by (simp add: fs_denied_def)
  have mb: "opt_max_bytes ?opts = 0" and ng: "\<not> opt_respect_gitignore ?opts"
    by (simp_all add: default_options_def)
  have t: "read_text_try ?f (opt_max_bytes ?opts) = Inl OSError"
    by (simp add: mb read_text_try_def file_read_def)
  show ?thesis
    using unreadable_file_is_skipped [OF l t, of "initial_state []" "[]" "[[S ''b.py'']]" env0] mb ng
    by (auto simp: initial_state_def)
qed

subsection \<open>C10: what files\_included counts\<close>

lemma walk_files_include:
  "p \<in> set (walk_files e opts pats here entries) \<Longrightarrow> include_pred e opts pats False p"
proof (induction e opts pats here entries arbitrary: p rule: walk_files.induct)
  case (1 e opts pats here entries)
  from "1.prems" consider
    (plain) fname nd where "(fname, nd) \<in> set entries" "\<not> is_dir nd"
      "include_pred e opts pats (is_dir nd) (here @ [fname])" "p = here @ [fname]"
  | (sub) d sub where "(d, Dir sub) \<in> set entries" "d \<notin> set (opt_exclude_dirs opts)"
      "\<not> startswith_dot d" "p \<in> set (walk_files e opts pats (here @ [d]) sub)"
    by (subst (asm) walk_files.simps) (auto split: node.splits)
  then show ?case
  proof cases
    case plain
    then show ?thesis by simp
  next
    case sub
    then show ?thesis
      using "1.IH" [of "(d, Dir sub)" d "Dir sub" sub p] by simp
  qed
qed

definition fs_nul :: "(ustr \<times> node) list" where
  "fs_nul = [(S ''b.py'', File \<lparr>f_stat = Inr 3, f_data = Inr [0x00, 0x01, 0x02]\<rparr>)]"

lemma fs_nul_walk_files: "walk_files e (default_options r) [] [] fs_nul = [[S ''b.py'']]"
  by (simp add: walk_files.simps fs_nul_def include_pred_def default_defs str_defs)

lemma fs_nul_skipped: "is_skipped fs_nul (default_options r) [S ''b.py'']"
  by (simp add: is_skipped_def read_path_def fs_nul_def default_options_def
      read_text_safely_def read_text_try_def file_read_def looks_binary_def)

lemma fs_nul_final_state:
  assumes "set_iter_ok (set_iter e)"
  shows "final_state e fs_nul (default_options r) [] =
     (initial_state (dir_tree_ascii e (default_options r) [] fs_nul))
       \<lparr>total_files := 1, skipped_binaries := 1\<rparr>"
  by (simp add: final_state_def fs_nul_walk_files sorted_files_def set_iter_single [OF assms]
      file_step_alt fs_nul_skipped initial_state_def)

text \<open>
  Claim C10. The counter printed as \<^verbatim>\<open>files_included\<close> is the number of the files that
  the walk collected, each of which passes the file rule of the path filter, whether the
  file is skipped later or not; a skipped file is counted in both counters, and the number of
  sections is the difference of the two, which can be smaller than \<^verbatim>\<open>files_included\<close>.
\<close>

theorem files_included_counts_skipped:
  assumes "set_iter_ok (set_iter e)"
  shows
    "(let files = walk_files e opts pats [] entries;
          st = final_state e entries opts pats;
          st0 = initial_state (dir_tree_ascii e opts pats entries)
      in (\<forall>p \<in> set files. include_pred e opts pats False p) \<and>
         total_files st = card (set files) \<and>
         skipped_binaries st = card {p \<in> set files. is_skipped entries opts p} \<and>
         length (out st) = length (out st0) + (total_files st - skipped_binaries st) \<and>
         (opt_show_stats opts \<longrightarrow>
            S ''- files_included: '' @ str_of_nat (total_files st) @ S ''\<newline>''
              \<in> set (stats_footer opts st))) \<and>
     (\<exists>e' entries' opts'.
        set_iter_ok (set_iter e') \<and>
        length (out (final_state e' entries' opts' [])) -
          length (out (initial_state (dir_tree_ascii e' opts' [] entries')))
        < total_files (final_state e' entries' opts' []))"
proof -
  let ?files = "walk_files e opts pats [] entries"
  let ?sorted = "sorted_files e opts ?files"
  let ?st = "final_state e entries opts pats"
  let ?init = "initial_state (dir_tree_ascii e opts pats entries)"
  note sf = sorted_files_props [OF assms, of opts ?files]
  have inc: "\<forall>p \<in> set ?files. include_pred e opts pats False p"
    by (simp add: walk_files_include)
  have "total_files ?st = total_files ?init + length ?sorted"
    unfolding final_state_def by (rule foldl_total)
  then have tot: "total_files ?st = length ?sorted"
    by (simp add: initial_state_def)
  have total: "total_files ?st = card (set ?files)"
    using sf(1,2) tot distinct_card [of ?sorted] by simp
  have "skipped_binaries ?st =
          skipped_binaries ?init + length (filter (is_skipped entries opts) ?sorted)"
    unfolding final_state_def by (rule foldl_skipped)
  then have sk: "skipped_binaries ?st = length (filter (is_skipped entries opts) ?sorted)"
    by (simp add: initial_state_def)
  have "{p \<in> set ?files. is_skipped entries opts p} = {p. is_skipped entries opts p} \<inter> set ?sorted"
    using sf(2) by auto
  then have skipped:
    "skipped_binaries ?st = card {p \<in> set ?files. is_skipped entries opts p}"
    using sk sf(1) by (simp add: distinct_length_filter)
  have "length (out ?st) =
          length (out ?init) + length (filter (\<lambda>p. \<not> is_skipped entries opts p) ?sorted)"
    by (simp add: final_state_def foldl_out)
  moreover have "length (filter (\<lambda>p. \<not> is_skipped entries opts p) ?sorted) =
          length ?sorted - length (filter (is_skipped entries opts) ?sorted)"
    using sum_length_filter_compl [of "is_skipped entries opts" ?sorted] by simp
  ultimately have sections:
    "length (out ?st) = length (out ?init) + (total_files ?st - skipped_binaries ?st)"
    using tot sk by simp
  have footer: "opt_show_stats opts \<longrightarrow>
      S ''- files_included: '' @ str_of_nat (total_files ?st) @ S ''\<newline>''
        \<in> set (stats_footer opts ?st)"
    by (simp add: stats_footer_def)
  have "length (out (final_state env0 fs_nul (default_options []) [])) -
          length (out (initial_state (dir_tree_ascii env0 (default_options []) [] fs_nul)))
        < total_files (final_state env0 fs_nul (default_options []) [])"
    by (simp add: fs_nul_final_state [OF set_iter_ok_env0])
  then have ex: "\<exists>e' entries' opts'.
        set_iter_ok (set_iter e') \<and>
        length (out (final_state e' entries' opts' [])) -
          length (out (initial_state (dir_tree_ascii e' opts' [] entries')))
        < total_files (final_state e' entries' opts' [])"
    using set_iter_ok_env0 by blast
  from inc total skipped sections footer ex show ?thesis
    by (simp add: Let_def)
qed

theorem files_included_counts_skipped_witness:
  "total_files (final_state env0 fs_nul (default_options [S ''proj'']) []) = 1 \<and>
   skipped_binaries (final_state env0 fs_nul (default_options [S ''proj'']) []) = 1 \<and>
   length (out (final_state env0 fs_nul (default_options [S ''proj'']) [])) = 5 \<and>
   S ''- files_included: 1\<newline>''
     \<in> set (stats_footer (default_options [S ''proj''])
              (final_state env0 fs_nul (default_options [S ''proj'']) []))"
proof -
  have c: "card {p. p = [S ''b.py''] \<and> is_skipped fs_nul (default_options [S ''proj'']) p} = 1"
    using fs_nul_skipped [of "[S ''proj'']"]
    by (simp add: Collect_conv_if conj_commute)
  have s: "opt_show_stats (default_options [S ''proj''])"
    by (simp add: default_options_def)
  let ?st = "final_state env0 fs_nul (default_options [S ''proj'']) []"
  note w = files_included_counts_skipped [OF set_iter_ok_env0,
      of "default_options [S ''proj'']" "[]" fs_nul, unfolded Let_def fs_nul_walk_files]
  from w have t: "total_files ?st = 1"
    by simp
  from w c have k: "skipped_binaries ?st = 1"
    by simp
  from w t k have l: "length (out ?st) = 5"
    by (simp add: initial_state_def)
  from w s have "S ''- files_included: '' @ str_of_nat (total_files ?st) @ S ''\<newline>''
      \<in> set (stats_footer (default_options [S ''proj'']) ?st)"
    by blast
  moreover have "S ''- files_included: '' @ str_of_nat 1 @ S ''\<newline>'' = S ''- files_included: 1\<newline>''"
    by (simp add: str_of_nat.simps S_def)
  ultimately have f: "S ''- files_included: 1\<newline>''
      \<in> set (stats_footer (default_options [S ''proj'']) ?st)"
    using t by simp
  from t k l f show ?thesis
    by simp
qed

subsection \<open>C5: the scenario with a.py, b.bin and .git\<close>

text \<open>
  The root lists \<^verbatim>\<open>a.py\<close> (the eight bytes \<^verbatim>\<open>print(1)\<close>), \<^verbatim>\<open>b.bin\<close> (the bytes 0, 1, 2) and
  the hidden directory \<^verbatim>\<open>.git\<close> with \<^verbatim>\<open>ignored.py\<close> in it.
\<close>

definition fs_c5 :: "(ustr \<times> node) list" where
  "fs_c5 =
     [(S ''a.py'', File \<lparr>f_stat = Inr 8, f_data = Inr (B ''print(1)'')\<rparr>),
      (S ''b.bin'', File \<lparr>f_stat = Inr 3, f_data = Inr [0x00, 0x01, 0x02]\<rparr>),
      (S ''.git'', Dir [(S ''ignored.py'', File \<lparr>f_stat = Inr 2, f_data = Inr (B ''x\<newline>'')\<rparr>)])]"

lemma fs_c5_walk_files: "walk_files e (default_options r) [] [] fs_c5 = [[S ''a.py'']]"
  by (simp add: walk_files.simps fs_c5_def include_pred_def default_defs str_defs)

lemma fs_c5_walk: "walk e (default_options r) [] [] fs_c5 [] = [S ''`-- a.py'']"
  by (simp add: walk.simps iter_entries_def fs_c5_def include_pred_def default_defs str_defs
      enumerate_eq_zip)

lemma fs_c5_read:
  "read_path fs_c5 (default_options r) [S ''a.py''] = (S ''print(1)'', False, False)"
  by (simp add: read_path_def fs_c5_def default_options_def read_text_safely_def
      read_text_try_def file_read_def sniff_defs decode_defs Let_def S_def B_def)

lemma fs_c5_section:
  "section_of fs_c5 (default_options r) [S ''a.py''] =
     S ''## a.py\<newline>```python\<newline>print(1)\<newline>```\<newline>\<newline>''"
  by (simp add: section_of_def fs_c5_read)
     (simp add: section_text_def lang_from_suffix_def strip_nl_def str_defs)

lemma fs_c5_final_state:
  assumes "set_iter_ok (set_iter e)"
  shows "final_state e fs_c5 (default_options r) [] =
     \<lparr>out = [S ''# Project Snapshot\<newline>'', S ''## Directory Tree\<newline>'', S ''```text\<newline>'',
             root_name r @ S ''\<newline>`-- a.py'', S ''\<newline>```\<newline>\<newline>'',
             S ''## a.py\<newline>```python\<newline>print(1)\<newline>```\<newline>\<newline>''],
      total_files = 1, truncated_files = 0, skipped_binaries = 0\<rparr>"
proof -
  have root: "opt_root (default_options r) = r"
    by (simp add: default_options_def)
  have tree: "dir_tree_ascii e (default_options r) [] fs_c5 = root_name r @ S ''\<newline>`-- a.py''"
    by (simp add: dir_tree_ascii_def fs_c5_walk root) (simp add: S_def)
  have ns: "\<not> is_skipped fs_c5 (default_options r) [S ''a.py'']"
    by (simp add: is_skipped_def fs_c5_read)
  have nt: "\<not> is_truncated fs_c5 (default_options r) [S ''a.py'']"
    by (simp add: is_truncated_def fs_c5_read)
  show ?thesis
    by (simp add: final_state_def fs_c5_walk_files sorted_files_def set_iter_single [OF assms]
        file_step_alt ns nt fs_c5_section tree initial_state_def)
qed

text \<open>
  Claim C5, as amended. With the default options the tree lists only \<^verbatim>\<open>a.py\<close>, the section
  of \<^verbatim>\<open>a.py\<close> shows \<^verbatim>\<open>print(1)\<close>, and the footer reports \<^verbatim>\<open>files_included: 1\<close> and
  \<^verbatim>\<open>files_skipped_as_binary_or_unreadable: 0\<close>: the extension \<^verbatim>\<open>.bin\<close> is not among the
  included extensions, so \<^verbatim>\<open>b.bin\<close> is filtered out before it is read and is counted
  nowhere.
\<close>

theorem default_scenario_document:
  assumes "set_iter_ok (set_iter e)"
  shows
    "build_snapshot e (Dir fs_c5) (default_options r) =
       Inr (S ''# Project Snapshot\<newline>## Directory Tree\<newline>```text\<newline>'' @ root_name r @
            S ''\<newline>`-- a.py\<newline>```\<newline>\<newline>## a.py\<newline>```python\<newline>print(1)\<newline>```\<newline>\<newline>---\<newline>## Snapshot Stats\<newline>- files_included: 1\<newline>- files_skipped_as_binary_or_unreadable: 0\<newline>'') \<and>
     walk e (default_options r) [] [] fs_c5 [] = [S ''`-- a.py''] \<and>
     \<not> include_pred e (default_options r) [] False [S ''b.bin'']"
proof -
  have "\<not> include_pred e (default_options r) [] False [S ''b.bin'']"
    by (simp add: include_pred_def default_defs str_defs)
  moreover have "build_snapshot e (Dir fs_c5) (default_options r) =
       Inr (S ''# Project Snapshot\<newline>## Directory Tree\<newline>```text\<newline>'' @ root_name r @
            S ''\<newline>`-- a.py\<newline>```\<newline>\<newline>## a.py\<newline>```python\<newline>print(1)\<newline>```\<newline>\<newline>---\<newline>## Snapshot Stats\<newline>- files_included: 1\<newline>- files_skipped_as_binary_or_unreadable: 0\<newline>'')"
    by (simp add: build_snapshot_def assemble_def fs_c5_final_state [OF assms] Let_def)
       (simp add: default_options_def stats_footer_def str_of_nat.simps S_def)
  ultimately show ?thesis
    by (simp add: fs_c5_walk)
qed

theorem default_scenario_document_witness:
  "build_snapshot env0 (Dir fs_c5) (default_options [S ''home'', S ''proj'']) =
     Inr (S ''# Project Snapshot\<newline>## Directory Tree\<newline>```text\<newline>proj\<newline>`-- a.py\<newline>```\<newline>\<newline>## a.py\<newline>```python\<newline>print(1)\<newline>```\<newline>\<newline>---\<newline>## Snapshot Stats\<newline>- files_included: 1\<newline>- files_skipped_as_binary_or_unreadable: 0\<newline>'')"
  using default_scenario_document [OF set_iter_ok_env0, of "[S ''home'', S ''proj'']"]
  by (simp add: root_name_def S_def)

text \<open>
  The claim as stated fails: the footer of this run reports no skipped file, and its line
  for one skipped file is not in it.
\<close>

theorem default_scenario_skipped_counterexample:
  "skipped_binaries (final_state env0 fs_c5 (default_options [S ''proj'']) []) = 0 \<and>
   stats_footer (default_options [S ''proj''])
     (final_state env0 fs_c5 (default_options [S ''proj'']) []) =
     [S ''---\<newline>'', S ''## Snapshot Stats\<newline>'', S ''- files_included: 1\<newline>'',
      S ''- files_skipped_as_binary_or_unreadable: 0\<newline>''] \<and>
   S ''- files_skipped_as_binary_or_unreadable: 1\<newline>''
     \<notin> set (stats_footer (default_options [S ''proj''])
              (final_state env0 fs_c5 (default_options [S ''proj'']) []))"
  by (simp add: fs_c5_final_state [OF set_iter_ok_env0])
     (simp add: default_options_def stats_footer_def str_of_nat.simps S_def)

subsection \<open>C4: the scenario with big.py\<close>

text \<open>
  A file of five lines of nine bytes each has sixty bytes only if every line ends in a line
  boundary of three bytes, which is U+2028 or U+2029 in UTF-8. \<^verbatim>\<open>big.py\<close> is such a file.
\<close>

definition big_lines :: "string list" where
  "big_lines = [''# line 01'', ''# line 02'', ''# line 03'', ''# line 04'', ''# line 05'']"

definition big_data :: bytes where
  "big_data = concat (map (\<lambda>l. B l @ [0xE2, 0x80, 0xA8]) big_lines)"

definition fs_c4 :: "bytes \<Rightarrow> (ustr \<times> node) list" where
  "fs_c4 data = [(S ''big.py'', File \<lparr>f_stat = Inr 60, f_data = Inr data\<rparr>)]"

definition opts_c4 :: "path \<Rightarrow> options" where
  "opts_c4 r = (default_options r)\<lparr>opt_max_bytes := 10, opt_head_lines := 1, opt_tail_lines := 1\<rparr>"

lemma fs_c4_walk_files: "walk_files e (opts_c4 r) [] [] (fs_c4 data) = [[S ''big.py'']]"
  by (simp add: walk_files.simps fs_c4_def opts_c4_def include_pred_def default_defs str_defs)

lemma fs_c4_read:
  assumes "\<not> looks_binary (take 11 data)"
  shows "read_path (fs_c4 data) (opts_c4 r) [S ''big.py''] =
     (decode_replace (take 11 data), True, False)"
  using assms
  by (simp add: read_path_def fs_c4_def opts_c4_def default_options_def read_text_safely_def
      read_text_try_def file_read_def)

lemma fs_c4_lang: "lang_from_suffix (lower (path_suffix (path_name [S ''big.py'']))) = S ''python''"
  by (simp add: lang_from_suffix_def str_defs)

lemma fs_c4_out:
  assumes "set_iter_ok (set_iter e)" and "\<not> looks_binary (take 11 data)"
  shows "out (final_state e (fs_c4 data) (opts_c4 r) []) =
     out (initial_state (dir_tree_ascii e (opts_c4 r) [] (fs_c4 data))) @
     [section_text (S ''big.py'') (S ''python'')
        (strip_nl (shape_truncated 1 1 (decode_replace (take 11 data))))]"
proof -
  have ns: "\<not> is_skipped (fs_c4 data) (opts_c4 r) [S ''big.py'']"
    by (simp add: is_skipped_def fs_c4_read [OF assms(2)])
  have sec: "section_of (fs_c4 data) (opts_c4 r) [S ''big.py''] =
      section_text (S ''big.py'') (S ''python'')
        (strip_nl (shape_truncated 1 1 (decode_replace (take 11 data))))"
    by (simp add: section_of_def fs_c4_read [OF assms(2)] fs_c4_lang)
       (simp add: opts_c4_def default_options_def rel_str_def)
  show ?thesis
    by (simp add: final_state_def fs_c4_walk_files sorted_files_def set_iter_single [OF assms(1)]
        file_step_alt ns sec)
qed

text \<open>
  Claim C4, as amended. With \<^verbatim>\<open>max_bytes=10\<close>, \<^verbatim>\<open>head_lines=1\<close> and \<^verbatim>\<open>tail_lines=1\<close>, the
  section of a file \<^verbatim>\<open>big.py\<close> of sixty bytes holds the first line and the last line of the
  text decoded from the first eleven bytes of the file (\<open>max_bytes + 1\<close>), with the
  truncation marker between them, and nothing else: what follows the eleventh byte, line 5
  with it, does not reach the document.
\<close>

theorem big_file_section:
  assumes "set_iter_ok (set_iter e)" and "length data = 60" and "\<not> looks_binary (take 11 data)"
  shows
    "(let lines = splitlines (decode_replace (take 11 data))
      in out (final_state e (fs_c4 data) (opts_c4 r) []) =
           out (initial_state (dir_tree_ascii e (opts_c4 r) [] (fs_c4 data))) @
           [S ''## big.py\<newline>```python\<newline>'' @
            strip_nl (join (S ''\<newline>'')
              (take 1 lines @ [[], S ''... [truncated] ...'', []] @ drop (length lines - 1) lines)) @
            S ''\<newline>```\<newline>\<newline>''])"
  by (simp add: fs_c4_out [OF assms(1,3)] shape_truncated_def Let_def section_text_def S_def)

lemma big_data_length: "length big_data = 60"
  by (simp add: big_data_def big_lines_def B_def)

lemma big_data_lines:
  "splitlines (decode_replace big_data) =
     [S ''# line 01'', S ''# line 02'', S ''# line 03'', S ''# line 04'', S ''# line 05'']"
  by (simp add: big_data_def big_lines_def B_def S_def decode_defs splitlines_def is_linebreak_def)

lemma big_data_sample: "take 11 big_data = B ''# line 01'' @ [0xE2, 0x80]"
  by (simp add: big_data_def big_lines_def B_def)

lemma big_data_not_binary: "\<not> looks_binary (take 11 big_data)"
  by (simp add: big_data_sample) (simp add: sniff_defs B_def Let_def)

lemma big_data_sample_lines:
  "splitlines (decode_replace (take 11 big_data)) = [S ''# line 01'' @ [0xFFFD]]"
  by (simp add: big_data_sample) (simp add: B_def S_def decode_defs splitlines_def is_linebreak_def)

theorem big_file_section_witness:
  "out (final_state env0 (fs_c4 big_data) (opts_c4 [S ''proj'']) []) =
     out (initial_state (dir_tree_ascii env0 (opts_c4 [S ''proj'']) [] (fs_c4 big_data))) @
     [S ''## big.py\<newline>```python\<newline># line 01'' @ [0xFFFD] @
      S ''\<newline>\<newline>... [truncated] ...\<newline>\<newline># line 01'' @ [0xFFFD] @ S ''\<newline>```\<newline>\<newline>'']"
  using big_file_section [OF set_iter_ok_env0 big_data_length big_data_not_binary, of "[S ''proj'']"]
  by (simp add: big_data_sample_lines Let_def) (simp add: strip_nl_def S_def)

text \<open>
  The claim as stated fails on this file: it has five lines, each of nine bytes, and sixty
  bytes in all; its section is not the first line, the marker and the fifth line, and the
  fifth line stands nowhere in it.
\<close>

theorem big_file_line5_counterexample:
  "length big_data = 60 \<and>
   splitlines (decode_replace big_data) =
     [S ''# line 01'', S ''# line 02'', S ''# line 03'', S ''# line 04'', S ''# line 05''] \<and>
   last (out (final_state env0 (fs_c4 big_data) (opts_c4 [S ''proj'']) [])) \<noteq>
     S ''## big.py\<newline>```python\<newline># line 01\<newline>\<newline>... [truncated] ...\<newline>\<newline># line 05\<newline>```\<newline>\<newline>'' \<and>
   \<not> occurs_in (S ''# line 05'')
       (last (out (final_state env0 (fs_c4 big_data) (opts_c4 [S ''proj'']) [])))"
proof -
  have sec: "last (out (final_state env0 (fs_c4 big_data) (opts_c4 [S ''proj'']) [])) =
      S ''## big.py\<newline>```python\<newline># line 01'' @ [0xFFFD] @
      S ''\<newline>\<newline>... [truncated] ...\<newline>\<newline># line 01'' @ [0xFFFD] @ S ''\<newline>```\<newline>\<newline>''"
    by (simp add: fs_c4_out [OF set_iter_ok_env0 big_data_not_binary] shape_truncated_def
        big_data_sample_lines Let_def)
       (simp add: section_text_def strip_nl_def S_def)
  have "\<not> occurs_in (S ''# line 05'')
      (S ''## big.py\<newline>```python\<newline># line 01'' @ [0xFFFD] @
       S ''\<newline>\<newline>... [truncated] ...\<newline>\<newline># line 01'' @ [0xFFFD] @ S ''\<newline>```\<newline>\<newline>'')"
    by (simp add: occurs_in_def S_def upt_conv_Cons)
  moreover have "S ''## big.py\<newline>```python\<newline># line 01'' @ [0xFFFD] @
       S ''\<newline>\<newline>... [truncated] ...\<newline>\<newline># line 01'' @ [0xFFFD] @ S ''\<newline>```\<newline>\<newline>'' \<noteq>
     S ''## big.py\<newline>```python\<newline># line 01\<newline>\<newline>... [truncated] ...\<newline>\<newline># line 05\<newline>```\<newline>\<newline>''"
    by (simp add: S_def)
  ultimately show ?thesis
    by (simp add: sec big_data_length big_data_lines)
qed

subsection \<open>C8: the sections and their order\<close>














subsection \<open>C9: two runs over the same tree\<close>




















end
